theory Spec2Isabelle
  imports Main
begin

section \<open>The daily French word agent (app.js)\<close>

text \<open>
  A shallow embedding of \<^verbatim>\<open>src/app.js\<close>: the word catalog and its loading, the
  per-channel progress store with its file, \<^verbatim>\<open>pickNextWord\<close>, and the handler of
  \<^verbatim>\<open>POST /mastra/agent\<close>. Module-level variables (\<^verbatim>\<open>WORDS\<close>, \<^verbatim>\<open>PROGRESS\<close>) are
  passed explicitly; a thrown exception is the left summand of a result, returned together
  with the state reached when it was thrown.
\<close>

subsection \<open>Strings\<close>

text \<open>
  A JavaScript string is a sequence of UTF-16 code units, here natural numbers. \<open>str\<close>
  embeds an ASCII literal; the few characters of the source outside ASCII are written as
  their code units (231, 232, 233, 238 for the accented letters, 8212 for the dash, the
  surrogate pairs 55356 57225 and 55356 56811 55356 56823 for the two emoji).
\<close>

type_synonym jstr = "nat list"

definition str :: "string \<Rightarrow> jstr" where
  "str s = map of_char s"

text \<open>
  \<^verbatim>\<open>String.prototype.trim\<close> removes the code units of WhiteSpace and LineTerminator from
  both ends.
\<close>

definition is_space :: "nat \<Rightarrow> bool" where
  "is_space c = (c \<in> set [9, 10, 11, 12, 13, 32, 160, 5760, 8232, 8233, 8239, 8287, 12288, 65279]
     \<or> (8192 \<le> c \<and> c \<le> 8202))"

definition trim :: "jstr \<Rightarrow> jstr" where
  "trim s = rev (dropWhile is_space (rev (dropWhile is_space s)))"

text \<open>
  \<^verbatim>\<open>String.prototype.toLowerCase\<close> belongs to the runtime and works from the case tables of
  Unicode, which are not part of the repository. The functions that call it take it as a
  parameter \<open>lower\<close>, and what is proved of them holds for every such function. Where a
  request is evaluated, its text is ASCII and \<open>lower\<close> is \<open>lower_ascii\<close>, which does to an
  ASCII string what \<^verbatim>\<open>toLowerCase\<close> does: A to Z (65 to 90) move up by 32.
\<close>

definition lower_ascii :: "jstr \<Rightarrow> jstr" where
  "lower_ascii s = map (\<lambda>c. if 65 \<le> c \<and> c \<le> 90 then c + 32 else c) s"

text \<open>\<^verbatim>\<open>s.includes(w)\<close>: \<open>w\<close> occurs in \<open>s\<close> as a contiguous run of code units.\<close>

fun starts_with :: "jstr \<Rightarrow> jstr \<Rightarrow> bool" where
  "starts_with s [] = True"
| "starts_with [] (c # w) = False"
| "starts_with (d # s) (c # w) = (d = c \<and> starts_with s w)"

fun str_includes :: "jstr \<Rightarrow> jstr \<Rightarrow> bool" where
  "str_includes [] w = (w = [])"
| "str_includes (d # s) w = (starts_with (d # s) w \<or> str_includes s w)"

subsection \<open>Values of the request body\<close>

text \<open>
  The body is whatever \<^verbatim>\<open>express.json()\<close> parsed: a JSON value. A number is held as the
  string \<^verbatim>\<open>Number.prototype.toString\<close> gives for it (\<^verbatim>\<open>42\<close>, \<^verbatim>\<open>0.5\<close>, \<^verbatim>\<open>1e+21\<close>): the
  handler only tests a number for truth and converts it to a string, and both zeros print
  as \<^verbatim>\<open>0\<close>. The members of an object are listed in the order of the document; a repeated
  name keeps its last value. \<open>JUndefined\<close> is the value of a missing property.
\<close>

datatype jsval = JUndefined | JNull | JBool bool | JNum jstr | JStr jstr
  | JArr "jsval list" | JObj "(jstr \<times> jsval) list"

datatype error = TypeError | IOError | SyntaxError

fun truthy :: "jsval \<Rightarrow> bool" where
  "truthy JUndefined = False"
| "truthy JNull = False"
| "truthy (JBool b) = b"
| "truthy (JNum r) = (r \<noteq> str ''0'' \<and> r \<noteq> str ''NaN'')"
| "truthy (JStr s) = (s \<noteq> [])"
| "truthy (JArr xs) = True"
| "truthy (JObj kvs) = True"

text \<open>
  \<^verbatim>\<open>v?.k\<close>, for the names the handler reads (\<^verbatim>\<open>channel\<close>, \<^verbatim>\<open>id\<close>, \<^verbatim>\<open>channelId\<close>,
  \<^verbatim>\<open>address\<close>, \<^verbatim>\<open>metadata\<close>, \<^verbatim>\<open>text\<close>, \<^verbatim>\<open>message\<close>, \<^verbatim>\<open>content\<close>): no prototype has a
  member of one of these names, so the read gives the object's own member, and
  \<^verbatim>\<open>undefined\<close> on anything else.
\<close>

fun get :: "jsval \<Rightarrow> jstr \<Rightarrow> jsval" where
  "get (JObj kvs) k = (case map_of (rev kvs) k of Some v \<Rightarrow> v | None \<Rightarrow> JUndefined)"
| "get v k = JUndefined"

text \<open>\<^verbatim>\<open>a || b\<close>.\<close>

definition or_js :: "jsval \<Rightarrow> jsval \<Rightarrow> jsval" where
  "or_js a b = (if truthy a then a else b)"

text \<open>
  The conversion to a string, as \<^verbatim>\<open>v.toString()\<close> and as a property key
  (\<^verbatim>\<open>PROGRESS[v]\<close>) perform it on a parsed value. An array joins its items with commas,
  \<^verbatim>\<open>null\<close> items as the empty string. An object prints as \<^verbatim>\<open>[object Object]\<close>, unless it
  has a member named \<^verbatim>\<open>toString\<close> of its own: that member is no function, and the
  conversion throws a TypeError.
\<close>

fun to_string :: "jsval \<Rightarrow> error + jstr"
  and join_items :: "jsval list \<Rightarrow> error + jstr" where
  "to_string JUndefined = Inr (str ''undefined'')"
| "to_string JNull = Inr (str ''null'')"
| "to_string (JBool b) = Inr (if b then str ''true'' else str ''false'')"
| "to_string (JNum r) = Inr r"
| "to_string (JStr s) = Inr s"
| "to_string (JArr xs) = join_items xs"
| "to_string (JObj kvs) =
     (if str ''toString'' \<in> fst ` set kvs then Inl TypeError else Inr (str ''[object Object]''))"
| "join_items [] = Inr []"
| "join_items (x # xs) =
     (case (if x = JUndefined \<or> x = JNull then Inr [] else to_string x) of
        Inl e \<Rightarrow> Inl e
      | Inr a \<Rightarrow>
          (if xs = [] then Inr a
           else (case join_items xs of Inl e \<Rightarrow> Inl e | Inr b \<Rightarrow> Inr (a @ [44] @ b))))"

subsection \<open>The word catalog\<close>

text \<open>
  An entry of \<^verbatim>\<open>WORDS\<close>. Entries are taken with their four fields as strings, as every
  entry of the built-in list has them; the loader itself does not look inside the entries of
  a file.
\<close>

record WordEntry =
  word :: jstr
  meaning :: jstr
  example :: jstr
  pron :: jstr

definition default_WORDS :: "WordEntry list" where
  "default_WORDS =
    [\<lparr>word = str ''bonjour'', meaning = str ''hello (good day)'',
      example = str ''Bonjour! Comment '' @ [231] @ str ''a va?'', pron = str ''bohn-zhoor''\<rparr>,
     \<lparr>word = str ''merci'', meaning = str ''thank you'',
      example = str ''Merci pour ton aide.'', pron = str ''mehr-see''\<rparr>,
     \<lparr>word = str ''s'il vous pla'' @ [238] @ str ''t'', meaning = str ''please'',
      example = str ''Un caf'' @ [233] @ str '', s'il vous pla'' @ [238] @ str ''t.'',
      pron = str ''seel voo pleh''\<rparr>,
     \<lparr>word = str ''amour'', meaning = str ''love'',
      example = str ''L'amour est beau.'', pron = str ''ah-moor''\<rparr>,
     \<lparr>word = str ''chien'', meaning = str ''dog'',
      example = str ''Le chien court dans le parc.'', pron = str ''shee-en''\<rparr>,
     \<lparr>word = str ''chat'', meaning = str ''cat'',
      example = str ''Le chat dort sur la chaise.'', pron = str ''sha''\<rparr>]"

text \<open>
  What the start-up code finds at \<^verbatim>\<open>french_words.json\<close>: no file; a file that
  \<^verbatim>\<open>readFileSync\<close> cannot read; content that \<^verbatim>\<open>JSON.parse\<close> rejects; or a parsed value,
  which is an array of entries or something else.
\<close>

datatype parsed = NotArray | IsArray "WordEntry list"

datatype words_file = Missing | ReadFails | ParseFails | Parsed parsed

text \<open>The body of the \<^verbatim>\<open>try\<close> block: the new value of \<^verbatim>\<open>WORDS\<close>, or the exception.\<close>

definition read_words :: "words_file \<Rightarrow> WordEntry list \<Rightarrow> error + WordEntry list" where
  "read_words f WORDS =
     (case f of
        Missing \<Rightarrow> Inl IOError
      | ReadFails \<Rightarrow> Inl IOError
      | ParseFails \<Rightarrow> Inl SyntaxError
      | Parsed p \<Rightarrow>
          (case p of
             NotArray \<Rightarrow> Inr WORDS
           | IsArray ws \<Rightarrow> if length ws > 0 then Inr ws else Inr WORDS))"

text \<open>
  \<^verbatim>\<open>let WORDS = [...]; if (fs.existsSync(WORDS_FILE)) { try { ... } catch (e) { warn } }\<close>
\<close>

definition load_words :: "words_file \<Rightarrow> WordEntry list" where
  "load_words f =
     (if f \<noteq> Missing
      then (case read_words f default_WORDS of Inl e \<Rightarrow> default_WORDS | Inr ws \<Rightarrow> ws)
      else default_WORDS)"

subsection \<open>The progress store\<close>

text \<open>
  \<^verbatim>\<open>PROGRESS\<close> maps a channel key to \<^verbatim>\<open>{ index, last_sent }\<close>. The store holds the
  entries the object has of its own, under string keys, with the index a natural number as
  the program writes it.

  \<^verbatim>\<open>PROGRESS\<close> is a plain object, so \<^verbatim>\<open>PROGRESS[key]\<close> also finds what every object
  inherits from \<^verbatim>\<open>Object.prototype\<close>: for a key in \<open>object_members\<close> that is not a key of
  the store, the value read is the inherited member, a function (for \<^verbatim>\<open>__proto__\<close> the
  prototype object), which is true as a condition and has no \<^verbatim>\<open>index\<close> that is a number.

  The state of the process is the store, the content of \<^verbatim>\<open>progress.json\<close> (the store as
  last written, if ever) and the number of completed writes. It describes a process whose
  \<^verbatim>\<open>Object.prototype\<close> has its standard members only. A call of \<^verbatim>\<open>pickNextWord\<close> for
  \<^verbatim>\<open>__proto__\<close> assigns \<^verbatim>\<open>index\<close> and \<^verbatim>\<open>last_sent\<close> to the prototype object itself; the
  state does not record this, and the requests that follow such a call are not described.
\<close>

definition object_members :: "jstr list" where
  "object_members =
     [str ''constructor'', str ''__defineGetter__'', str ''__defineSetter__'',
      str ''hasOwnProperty'', str ''__lookupGetter__'', str ''__lookupSetter__'',
      str ''isPrototypeOf'', str ''propertyIsEnumerable'', str ''toString'', str ''valueOf'',
      str ''__proto__'', str ''toLocaleString'']"

record progress =
  index :: nat
  last_sent :: "jstr option"

type_synonym store = "jstr \<rightharpoonup> progress"

record state =
  PROGRESS :: store
  progress_file :: "store option"
  writes :: nat

text \<open>
  What a request finds around it: the time \<^verbatim>\<open>new Date().toISOString()\<close> reads, and
  whether \<^verbatim>\<open>writeFileSync\<close> succeeds. A write that fails throws and is taken to leave
  the file as it was.
\<close>

record env =
  now :: jstr
  write_ok :: bool

definition saveProgress :: "env \<Rightarrow> state \<Rightarrow> (error + unit) \<times> state" where
  "saveProgress e s =
     (if write_ok e
      then (Inr (), s\<lparr>progress_file := Some (PROGRESS s), writes := Suc (writes s)\<rparr>)
      else (Inl IOError, s))"

text \<open>
  \<^verbatim>\<open>pickNextWord(channelId)\<close>, returning \<^verbatim>\<open>{ index, wordObj }\<close> as a pair; an index of
  \<open>None\<close> is \<^verbatim>\<open>NaN\<close> and a \<open>wordObj\<close> of \<open>None\<close> is \<^verbatim>\<open>undefined\<close>.

  Line 75 creates an entry when \<^verbatim>\<open>PROGRESS[channelId]\<close> is false as a condition, that is,
  when the store has no entry and the key names no inherited member. Lines 77 to 79 then
  work on \<^verbatim>\<open>PROGRESS[channelId]\<close>. When that is an entry of the store, they rotate it. When
  it is an inherited member, \<^verbatim>\<open>index\<close> read from it is no number, \<open>idx\<close> is \<^verbatim>\<open>NaN\<close>, the
  two assignments write to the member and not to the store, and \<^verbatim>\<open>WORDS[NaN]\<close> is
  \<^verbatim>\<open>undefined\<close>. In both cases line 80 saves the store.

  The catalog is never empty (\<open>load_words\<close> sees to it), and what is proved of the rotation
  assumes so: on an empty catalog JavaScript computes \<^verbatim>\<open>NaN\<close> for an entry's index, which
  the natural numbers do not have.
\<close>

definition pickNextWord ::
  "WordEntry list \<Rightarrow> env \<Rightarrow> jstr \<Rightarrow> state
     \<Rightarrow> (error + nat option \<times> WordEntry option) \<times> state" where
  "pickNextWord WORDS e channelId s =
     (let total = length WORDS;
          P = (if PROGRESS s channelId = None \<and> channelId \<notin> set object_members
               then (PROGRESS s)(channelId \<mapsto> \<lparr>index = 0, last_sent = None\<rparr>)
               else PROGRESS s)
      in (case P channelId of
            Some p \<Rightarrow>
              (let idx = index p mod total;
                   s1 = s\<lparr>PROGRESS := P(channelId \<mapsto>
                          \<lparr>index = (index p + 1) mod total, last_sent = Some (now e)\<rparr>)\<rparr>
               in (case saveProgress e s1 of
                     (Inl err, s2) \<Rightarrow> (Inl err, s2)
                   | (Inr u, s2) \<Rightarrow> (Inr (Some idx, Some (WORDS ! idx)), s2)))
          | None \<Rightarrow>
              (case saveProgress e s of
                 (Inl err, s2) \<Rightarrow> (Inl err, s2)
               | (Inr u, s2) \<Rightarrow> (Inr (None, None), s2))))"

text \<open>Successive calls of \<^verbatim>\<open>pickNextWord\<close> for one channel, one environment per call.\<close>

fun pick_times ::
  "WordEntry list \<Rightarrow> env list \<Rightarrow> jstr \<Rightarrow> state
     \<Rightarrow> (error + nat option \<times> WordEntry option) list \<times> state" where
  "pick_times WORDS [] channelId s = ([], s)"
| "pick_times WORDS (e # es) channelId s =
     (case pickNextWord WORDS e channelId s of
        (r, s1) \<Rightarrow> (case pick_times WORDS es channelId s1 of (rs, s2) \<Rightarrow> (r # rs, s2)))"

subsection \<open>The reply\<close>

text \<open>
  The JSON body of a reply, \<^verbatim>\<open>{ type, text, actions }\<close>, and a button,
  \<^verbatim>\<open>{ type, title, payload }\<close>; the fields \<^verbatim>\<open>type\<close> and \<^verbatim>\<open>text\<close> are named
  \<open>msg_type\<close>, \<open>msg_text\<close> and \<open>act_type\<close> here.
\<close>

record action =
  act_type :: jstr
  title :: jstr
  payload :: jstr

record message =
  msg_type :: jstr
  msg_text :: jstr
  actions :: "action list"

definition buildResponsePayload :: "jsval \<Rightarrow> jstr \<Rightarrow> bool \<Rightarrow> message" where
  "buildResponsePayload original txt askForSentence =
     \<lparr>msg_type = str ''message'',
      msg_text = txt,
      actions =
        (if askForSentence
         then [\<lparr>act_type = str ''button'', title = str ''I'll use it now'',
                 payload = str ''I used the word: ''\<rparr>,
               \<lparr>act_type = str ''button'', title = str ''Send a sentence later'',
                 payload = str ''send later''\<rparr>]
         else [])\<rparr>"

text \<open>What \<^verbatim>\<open>res\<close> sends: status 200 with a message, or status 500 with \<^verbatim>\<open>{ error }\<close>.\<close>

datatype response = Json200 message | Json500 jstr

text \<open>The three template literals of the handler.\<close>

definition praise_text :: "jstr \<Rightarrow> jstr" where
  \<open>praise_text lastWord =
     str ''Amazing '' @ [8212] @ str '' you used the word "'' @ lastWord
     @ str ''" correctly! Tr'' @ [232] @ str ''s bien '' @ [55356, 57225] @ [10]
     @ str ''Would you like another word tomorrow?''\<close>

definition tip_text :: "jstr \<Rightarrow> jstr" where
  \<open>tip_text ex =
     str ''Thanks '' @ [8212]
     @ str '' nice try! Here's a tip: include the new word in your sentence (e.g., "''
     @ ex @ str ''").''\<close>

definition composed :: "WordEntry \<Rightarrow> jstr" where
  "composed wordObj =
     [55356, 56811, 55356, 56823] @ str '' *Word of the day* '' @ [8212] @ str '' *''
     @ word wordObj @ str ''*'' @ [10]
     @ str ''Pronunciation: '' @ pron wordObj @ [10]
     @ str ''Meaning: '' @ meaning wordObj @ [10]
     @ str ''Example: '' @ example wordObj @ [10, 10]
     @ str ''Can you write a sentence using *'' @ word wordObj
     @ str ''*? Reply here and I'll give feedback!''"

subsection \<open>The handler of POST /mastra/agent\<close>

text \<open>
  The channel id: \<^verbatim>\<open>body?.channel?.id || body?.channelId || (typeof body?.address ===
  "string" ? body.address.split("/")[0] : null) || body?.metadata?.channelId || "global"\<close>.
  Code unit 47 is the slash.
\<close>

definition address_segment :: "jsval \<Rightarrow> jsval" where
  "address_segment body =
     (case get body (str ''address'') of
        JStr a \<Rightarrow> JStr (takeWhile (\<lambda>c. c \<noteq> 47) a)
      | _ \<Rightarrow> JNull)"

definition channelId_of :: "jsval \<Rightarrow> jsval" where
  "channelId_of body =
     or_js (or_js (or_js (or_js
       (get (get body (str ''channel'')) (str ''id''))
       (get body (str ''channelId'')))
       (address_segment body))
       (get (get body (str ''metadata'')) (str ''channelId'')))
       (JStr (str ''global''))"

text \<open>
  \<^verbatim>\<open>(body?.text || body?.message || body?.content || "").toString().trim().toLowerCase()\<close>:
  \<open>text_of\<close> is the value in the parentheses.
\<close>

definition text_of :: "jsval \<Rightarrow> jsval" where
  "text_of body =
     or_js (or_js (or_js (get body (str ''text'')) (get body (str ''message'')))
       (get body (str ''content''))) (JStr [])"

definition incomingText :: "(jstr \<Rightarrow> jstr) \<Rightarrow> jsval \<Rightarrow> error + jstr" where
  "incomingText lower body =
     (case to_string (text_of body) of
        Inl e \<Rightarrow> Inl e
      | Inr s \<Rightarrow> Inr (lower (trim s)))"

text \<open>
  The condition of line 129: \<^verbatim>\<open>incomingText && incomingText.length > 0 && incomingText !==
  "daily word" && !["start","help"].includes(incomingText)\<close>.
\<close>

definition is_reply :: "jstr \<Rightarrow> bool" where
  "is_reply t =
     (t \<noteq> [] \<and> length t > 0 \<and> t \<noteq> str ''daily word'' \<and> t \<notin> set [str ''start'', str ''help''])"

text \<open>
  Lines 131 to 139, the acknowledgement. \<^verbatim>\<open>PROGRESS[channelId]\<close> converts the channel id
  to a key first. \<open>lastIndex\<close> and \<open>lastWord\<close> are \<open>None\<close> where the source has \<^verbatim>\<open>null\<close>;
  a word is true as a condition when it is not the empty string. The first value given to
  \<^verbatim>\<open>replyText\<close> is overwritten on both branches and is left out.
\<close>

definition lastIndex_of :: "WordEntry list \<Rightarrow> store \<Rightarrow> jstr \<Rightarrow> nat option" where
  "lastIndex_of WORDS P key =
     (case P key of
        None \<Rightarrow> None
      | Some p \<Rightarrow>
          if index p \<noteq> 0 then Some ((index p + length WORDS - 1) mod length WORDS) else None)"

definition replyText_of :: "WordEntry list \<Rightarrow> nat option \<Rightarrow> jstr \<Rightarrow> jstr" where
  "replyText_of WORDS lastIndex t =
     (case lastIndex of
        None \<Rightarrow> tip_text (str ''example'')
      | Some i \<Rightarrow>
          (let lastWord = word (WORDS ! i)
           in if lastWord \<noteq> [] \<and> str_includes t lastWord
              then praise_text lastWord
              else tip_text (if lastWord \<noteq> [] then example (WORDS ! i) else str ''example'')))"

definition acknowledge ::
  "WordEntry list \<Rightarrow> jsval \<Rightarrow> jsval \<Rightarrow> jstr \<Rightarrow> state \<Rightarrow> (error + message) \<times> state" where
  "acknowledge WORDS body channelId t s =
     (case to_string channelId of
        Inl err \<Rightarrow> (Inl err, s)
      | Inr key \<Rightarrow>
          (Inr (buildResponsePayload body
                  (replyText_of WORDS (lastIndex_of WORDS (PROGRESS s) key) t) False), s))"

text \<open>
  Lines 143 to 147, the word of the day. Reading \<^verbatim>\<open>wordObj.word\<close> throws a TypeError
  when \<open>wordObj\<close> is \<^verbatim>\<open>undefined\<close>.
\<close>

definition daily_word ::
  "WordEntry list \<Rightarrow> env \<Rightarrow> jsval \<Rightarrow> jsval \<Rightarrow> state \<Rightarrow> (error + message) \<times> state" where
  "daily_word WORDS e body channelId s =
     (case to_string channelId of
        Inl err \<Rightarrow> (Inl err, s)
      | Inr key \<Rightarrow>
          (case pickNextWord WORDS e key s of
             (Inl err, s1) \<Rightarrow> (Inl err, s1)
           | (Inr (idx, None), s1) \<Rightarrow> (Inl TypeError, s1)
           | (Inr (idx, Some wordObj), s1) \<Rightarrow>
               (Inr (buildResponsePayload body (composed wordObj) True), s1)))"

text \<open>The \<^verbatim>\<open>try\<close> block of the handler, and the handler with its \<^verbatim>\<open>catch\<close>.\<close>

definition handle_request ::
  "(jstr \<Rightarrow> jstr) \<Rightarrow> WordEntry list \<Rightarrow> env \<Rightarrow> jsval \<Rightarrow> state
     \<Rightarrow> (error + message) \<times> state" where
  "handle_request lower WORDS e req_body s =
     (let body = or_js req_body (JObj []);
          channelId = channelId_of body
      in (case incomingText lower body of
            Inl err \<Rightarrow> (Inl err, s)
          | Inr t \<Rightarrow>
              if is_reply t then acknowledge WORDS body channelId t s
              else daily_word WORDS e body channelId s))"

definition handler ::
  "(jstr \<Rightarrow> jstr) \<Rightarrow> WordEntry list \<Rightarrow> env \<Rightarrow> jsval \<Rightarrow> state \<Rightarrow> response \<times> state" where
  "handler lower WORDS e req_body s =
     (case handle_request lower WORDS e req_body s of
        (Inr m, s1) \<Rightarrow> (Json200 m, s1)
      | (Inl err, s1) \<Rightarrow> (Json500 (str ''Agent internal error''), s1))"

text \<open>The process as it starts with no \<^verbatim>\<open>progress.json\<close>.\<close>

definition fresh :: state where
  "fresh = \<lparr>PROGRESS = Map.empty, progress_file = None, writes = 0\<rparr>"

text \<open>A run of requests, each with its environment, and the responses sent.\<close>

fun serve ::
  "(jstr \<Rightarrow> jstr) \<Rightarrow> WordEntry list \<Rightarrow> (env \<times> jsval) list \<Rightarrow> state
     \<Rightarrow> response list \<times> state" where
  "serve lower WORDS [] s = ([], s)"
| "serve lower WORDS ((e, b) # rs) s =
     (case handler lower WORDS e b s of
        (r, s1) \<Rightarrow> (case serve lower WORDS rs s1 of (out, s2) \<Rightarrow> (r # out, s2)))"

subsection \<open>Notions used in the statements\<close>

text \<open>The index a channel's entry holds; a channel with no entry starts at 0.\<close>

definition cursor :: "store \<Rightarrow> jstr \<Rightarrow> nat" where
  "cursor P channelId = (case P channelId of None \<Rightarrow> 0 | Some p \<Rightarrow> index p)"

text \<open>
  The specification's rule for the channel id: the probes are tried in order and the first
  that yields a value is taken, the sentinel if none does. A probe yields a value when its
  result counts as true in a condition: it is not \<^verbatim>\<open>undefined\<close>, \<^verbatim>\<open>null\<close>,
  \<^verbatim>\<open>false\<close>, zero or the empty string.
\<close>

definition first_yielding :: "jsval list \<Rightarrow> jsval \<Rightarrow> jsval" where
  "first_yielding probes sentinel =
     (case find truthy probes of Some v \<Rightarrow> v | None \<Rightarrow> sentinel)"

text \<open>
  The specification's test of a reply: \<open>r\<close> contains \<open>w\<close> when the letter case of both is
  ignored, that is, when both are put in lower case.
\<close>

definition contains_ignoring_case :: "(jstr \<Rightarrow> jstr) \<Rightarrow> jstr \<Rightarrow> jstr \<Rightarrow> bool" where
  "contains_ignoring_case lower r w = str_includes (lower r) (lower w)"

text \<open>
  Sample data: a request environment in which writing succeeds and one in which it fails, and
  a catalog as a \<^verbatim>\<open>french_words.json\<close> may give it, with a word spelled with a capital.
\<close>

definition noon :: env where
  "noon = \<lparr>now = str ''2024-01-01T12:00:00.000Z'', write_ok = True\<rparr>"

definition disk_full :: env where
  "disk_full = \<lparr>now = str ''2024-01-01T12:00:00.000Z'', write_ok = False\<rparr>"

definition paris_WORDS :: "WordEntry list" where
  "paris_WORDS =
    [\<lparr>word = str ''Paris'', meaning = str ''Paris'',
      example = str ''Paris est une ville.'', pron = str ''pa-ree''\<rparr>,
     \<lparr>word = str ''merci'', meaning = str ''thank you'',
      example = str ''Merci pour ton aide.'', pron = str ''mehr-see''\<rparr>]"

section \<open>Catalog loading\<close>

lemma load_words_nonempty: "load_words f \<noteq> []"
  by (cases f) (auto simp: load_words_def read_words_def default_WORDS_def split: parsed.splits)

text \<open>
  C6. Loading the catalog always gives a catalog with at least one entry: the built-in list
  when the file is missing, unreadable, unparseable, not an array or an empty array, and the
  parsed array only when it has an entry.
\<close>

theorem load_words_default_or_file:
  "load_words Missing = default_WORDS
   \<and> load_words ReadFails = default_WORDS
   \<and> load_words ParseFails = default_WORDS
   \<and> load_words (Parsed NotArray) = default_WORDS
   \<and> load_words (Parsed (IsArray [])) = default_WORDS
   \<and> (ws \<noteq> [] \<longrightarrow> load_words (Parsed (IsArray ws)) = ws)
   \<and> length (load_words f) \<ge> 1
   \<and> length default_WORDS = 6"
proof -
  have "load_words f \<noteq> []" by (rule load_words_nonempty)
  then have "length (load_words f) \<ge> 1" by (cases "load_words f") simp_all
  moreover have "length default_WORDS = 6" by (simp add: default_WORDS_def)
  ultimately show ?thesis by (simp add: load_words_def read_words_def)
qed

theorem load_words_default_or_file_witness:
  "load_words (Parsed (IsArray [\<lparr>word = str ''eau'', meaning = str ''water'',
      example = str ''De l'eau.'', pron = str ''oh''\<rparr>]))
   = [\<lparr>word = str ''eau'', meaning = str ''water'', example = str ''De l'eau.'', pron = str ''oh''\<rparr>]
   \<and> length (load_words ParseFails) \<ge> 1"
  using load_words_default_or_file
    [of "[\<lparr>word = str ''eau'', meaning = str ''water'', example = str ''De l'eau.'', pron = str ''oh''\<rparr>]"
        ParseFails]
  by simp

section \<open>Rotation\<close>

text \<open>A key that names no inherited member: the call finds the entry or creates it.\<close>

lemma pickNextWord_store:
  "c \<notin> set object_members \<Longrightarrow>
   PROGRESS (snd (pickNextWord WORDS e c s)) =
     (PROGRESS s)(c \<mapsto> \<lparr>index = (cursor (PROGRESS s) c + 1) mod length WORDS,
                          last_sent = Some (now e)\<rparr>)"
  by (auto simp: pickNextWord_def saveProgress_def cursor_def Let_def split: option.splits)

lemma pickNextWord_returns:
  "c \<notin> set object_members \<Longrightarrow> write_ok e \<Longrightarrow>
   fst (pickNextWord WORDS e c s) =
     Inr (Some (cursor (PROGRESS s) c mod length WORDS),
          Some (WORDS ! (cursor (PROGRESS s) c mod length WORDS)))"
  by (auto simp: pickNextWord_def saveProgress_def cursor_def Let_def split: option.splits)

lemma pickNextWord_throws:
  "\<not> write_ok e \<Longrightarrow> fst (pickNextWord WORDS e c s) = Inl IOError"
  by (simp add: pickNextWord_def saveProgress_def Let_def split: option.splits)

lemma cursor_after_pick:
  "c \<notin> set object_members \<Longrightarrow>
   cursor (PROGRESS (snd (pickNextWord WORDS e c s))) c
   = (cursor (PROGRESS s) c + 1) mod length WORDS"
  by (simp add: pickNextWord_store cursor_def)

text \<open>
  A key that names an inherited member and has no entry in the store: the call saves the
  store as it is and returns \<^verbatim>\<open>{ index: NaN, wordObj: undefined }\<close>.
\<close>

lemma pickNextWord_member:
  "PROGRESS s c = None \<Longrightarrow> c \<in> set object_members \<Longrightarrow>
   pickNextWord WORDS e c s =
     (case saveProgress e s of
        (Inl err, s2) \<Rightarrow> (Inl err, s2)
      | (Inr u, s2) \<Rightarrow> (Inr (None, None), s2))"
  by (simp add: pickNextWord_def Let_def)

lemma pick_times_member:
  assumes "c \<in> set object_members" and "\<forall>e\<in>set es. write_ok e"
  shows "PROGRESS s c = None \<Longrightarrow>
         fst (pick_times WORDS es c s) = replicate (length es) (Inr (None, None))
         \<and> PROGRESS (snd (pick_times WORDS es c s)) = PROGRESS s"
  using assms(2)
proof (induction es arbitrary: s)
  case Nil
  then show ?case by simp
next
  case (Cons e es)
  let ?s1 = "s\<lparr>progress_file := Some (PROGRESS s), writes := Suc (writes s)\<rparr>"
  have step: "pickNextWord WORDS e c s = (Inr (None, None), ?s1)"
    using pickNextWord_member [OF Cons.prems(1) assms(1), of WORDS e] Cons.prems(2)
    by (simp add: saveProgress_def)
  have "PROGRESS ?s1 c = None" using Cons.prems(1) by simp
  then show ?case using Cons.IH [of ?s1] Cons.prems(2) step by (simp add: split_beta)
qed

text \<open>
  \<open>n\<close> calls in a row for a key that names no inherited member, all of whose writes
  succeed, return the entries from the stored index on, modulo the length of the catalog.
\<close>

lemma pick_times_returns:
  assumes "c \<notin> set object_members"
  shows "\<forall>e\<in>set es. write_ok e \<Longrightarrow>
   fst (pick_times WORDS es c s) =
     map (\<lambda>k. Inr (Some ((cursor (PROGRESS s) c + k) mod length WORDS),
                    Some (WORDS ! ((cursor (PROGRESS s) c + k) mod length WORDS)))) [0..<length es]"
proof (induction es arbitrary: s)
  case Nil
  then show ?case by simp
next
  case (Cons e es)
  obtain r s1 where step: "pickNextWord WORDS e c s = (r, s1)"
    by (cases "pickNextWord WORDS e c s")
  have r: "r = Inr (Some (cursor (PROGRESS s) c mod length WORDS),
                    Some (WORDS ! (cursor (PROGRESS s) c mod length WORDS)))"
    using pickNextWord_returns [OF assms, of e WORDS s] Cons.prems step by simp
  have c1: "cursor (PROGRESS s1) c = (cursor (PROGRESS s) c + 1) mod length WORDS"
    using cursor_after_pick [OF assms, of WORDS e s] step by simp
  have rest: "fst (pick_times WORDS es c s1) =
     map (\<lambda>k. Inr (Some ((cursor (PROGRESS s) c + Suc k) mod length WORDS),
                    Some (WORDS ! ((cursor (PROGRESS s) c + Suc k) mod length WORDS))))
       [0..<length es]"
    using Cons.IH [of s1] Cons.prems by (simp add: c1 mod_add_left_eq)
  have "[0..<length (e # es)] = 0 # map Suc [0..<length es]"
    by (simp add: upt_conv_Cons map_Suc_upt del: upt_Suc)
  then show ?case
    using step r rest by (simp add: split_beta comp_def del: upt_Suc)
qed

lemma pick_times_cursor:
  assumes "c \<notin> set object_members"
  shows "cursor (PROGRESS (snd (pick_times WORDS es c s))) c =
     (if es = [] then cursor (PROGRESS s) c
      else (cursor (PROGRESS s) c + length es) mod length WORDS)"
proof (induction es arbitrary: s)
  case Nil
  then show ?case by simp
next
  case (Cons e es)
  obtain r s1 where step: "pickNextWord WORDS e c s = (r, s1)"
    by (cases "pickNextWord WORDS e c s")
  have c1: "cursor (PROGRESS s1) c = (cursor (PROGRESS s) c + 1) mod length WORDS"
    using cursor_after_pick [OF assms, of WORDS e s] step by simp
  show ?case
    using Cons.IH [of s1] step c1 by (simp add: split_beta mod_add_left_eq mod_simps)
qed

lemma pick_times_entry:
  assumes "c \<notin> set object_members"
  shows "es \<noteq> [] \<Longrightarrow> \<exists>p. PROGRESS (snd (pick_times WORDS es c s)) c = Some p"
proof (induction es arbitrary: s)
  case Nil
  then show ?case by simp
next
  case (Cons e es)
  obtain r s1 where step: "pickNextWord WORDS e c s = (r, s1)"
    by (cases "pickNextWord WORDS e c s")
  show ?case
  proof (cases "es = []")
    case True
    then show ?thesis using pickNextWord_store [OF assms, of WORDS e s] step by simp
  next
    case False
    then show ?thesis using Cons.IH [of s1] step by (simp add: split_beta)
  qed
qed

text \<open>
  The rotation of a channel whose key names no inherited member. From no entry and with a
  catalog of \<open>T \<ge> 1\<close> words, \<open>T + 1\<close> calls in a row, each returning, return the entries at
  the indices 0, 1, ..., \<open>T - 1\<close> in this order and then the entry at index 0 again; after
  the \<open>k\<close>-th call the stored index is \<open>k mod T\<close>.
\<close>

lemma round_robin_own_keys:
  assumes "C \<notin> set object_members"
    and "WORDS \<noteq> []" and "PROGRESS s C = None"
    and "length es = length WORDS + 1" and "\<forall>e\<in>set es. write_ok e"
  shows "fst (pick_times WORDS es C s) =
           map (\<lambda>i. Inr (Some i, Some (WORDS ! i))) [0..<length WORDS]
           @ [Inr (Some 0, Some (WORDS ! 0))]
         \<and> (\<forall>k. 0 < k \<and> k \<le> length es \<longrightarrow>
               map_option index (PROGRESS (snd (pick_times WORDS (take k es) C s)) C)
               = Some (k mod length WORDS))"
proof (intro conjI allI impI)
  have c0: "cursor (PROGRESS s) C = 0" using assms(3) by (simp add: cursor_def)
  have "fst (pick_times WORDS es C s) =
          map (\<lambda>k. Inr (Some (k mod length WORDS), Some (WORDS ! (k mod length WORDS))))
            [0..<length WORDS + 1]"
    using pick_times_returns [OF assms(1) assms(5), of WORDS s] by (simp add: c0 assms(4))
  also have "\<dots> =
      map (\<lambda>k. Inr (Some (k mod length WORDS), Some (WORDS ! (k mod length WORDS))))
        [0..<length WORDS]
      @ [Inr (Some 0, Some (WORDS ! 0))]"
    by simp
  also have "map (\<lambda>k. Inr (Some (k mod length WORDS), Some (WORDS ! (k mod length WORDS))))
               [0..<length WORDS]
             = map (\<lambda>i. Inr (Some i, Some (WORDS ! i))) [0..<length WORDS]"
    by (rule map_cong) simp_all
  finally show "fst (pick_times WORDS es C s) =
           map (\<lambda>i. Inr (Some i, Some (WORDS ! i))) [0..<length WORDS]
           @ [Inr (Some 0, Some (WORDS ! 0))]" .
next
  fix k assume k: "0 < k \<and> k \<le> length es"
  have c0: "cursor (PROGRESS s) C = 0" using assms(3) by (simp add: cursor_def)
  from k have ne: "take k es \<noteq> []" by auto
  from k have len: "length (take k es) = k" by simp
  obtain p where p: "PROGRESS (snd (pick_times WORDS (take k es) C s)) C = Some p"
    using pick_times_entry [OF assms(1) ne] by blast
  have "cursor (PROGRESS (snd (pick_times WORDS (take k es) C s))) C = k mod length WORDS"
    using pick_times_cursor [OF assms(1), of WORDS "take k es" s] ne len by (simp add: c0)
  then show "map_option index (PROGRESS (snd (pick_times WORDS (take k es) C s)) C)
               = Some (k mod length WORDS)"
    using p by (simp add: cursor_def)
qed

lemma global_is_no_member: "str ''global'' \<notin> set object_members"
  by (simp add: object_members_def str_def)

lemma constructor_is_member: "str ''constructor'' \<in> set object_members"
  by (simp add: object_members_def)

lemma toString_is_member: "str ''toString'' \<in> set object_members"
  by (simp add: object_members_def)

text \<open>
  C1, at the input where the code departs from it. The process starts with no progress file
  and the built-in catalog of six words, and the channel is \<^verbatim>\<open>constructor\<close>, for which the
  store has no entry. Seven calls of \<open>pickNextWord\<close> in a row return
  \<^verbatim>\<open>{ index: NaN, wordObj: undefined }\<close> each, where the claim has the entries at the
  indices 0 to 5 and then 0; the store gets no entry for the channel; and the handler answers
  a request of this channel for its word with status 500.
\<close>

theorem inherited_key_rotation:
  "fst (pick_times default_WORDS (replicate 7 noon) (str ''constructor'') fresh)
   = replicate 7 (Inr (None, None))
   \<and> PROGRESS (snd (pick_times default_WORDS (replicate 7 noon) (str ''constructor'') fresh))
       (str ''constructor'') = None
   \<and> fst (handler lower_ascii default_WORDS noon
            (JObj [(str ''channelId'', JStr (str ''constructor''))]) fresh)
     = Json500 (str ''Agent internal error'')"
proof (intro conjI)
  have none: "PROGRESS fresh (str ''constructor'') = None" by (simp add: fresh_def)
  have ok: "\<forall>e\<in>set (replicate 7 noon). write_ok e" by (simp add: noon_def)
  note seven = pick_times_member [OF constructor_is_member ok none, of default_WORDS]
  from seven
  show "fst (pick_times default_WORDS (replicate 7 noon) (str ''constructor'') fresh)
        = replicate 7 (Inr (None, None))"
    by simp
  from seven none
  show "PROGRESS (snd (pick_times default_WORDS (replicate 7 noon) (str ''constructor'') fresh))
          (str ''constructor'') = None"
    by simp
  let ?b = "JObj [(str ''channelId'', JStr (str ''constructor''))]"
  have body: "or_js ?b (JObj []) = ?b" by (simp add: or_js_def)
  have chan: "channelId_of ?b = JStr (str ''constructor'')"
    by (simp add: channelId_of_def address_segment_def or_js_def str_def)
  have itext: "incomingText lower_ascii ?b = Inr []"
    by (simp add: incomingText_def text_of_def or_js_def trim_def lower_ascii_def str_def)
  have pick: "pickNextWord default_WORDS noon (str ''constructor'') fresh
      = (Inr (None, None), fresh\<lparr>progress_file := Some (PROGRESS fresh), writes := Suc (writes fresh)\<rparr>)"
    using pickNextWord_member [OF none constructor_is_member, of default_WORDS noon]
    by (simp add: saveProgress_def noon_def)
  show "fst (handler lower_ascii default_WORDS noon ?b fresh)
        = Json500 (str ''Agent internal error'')"
    by (simp add: handler_def handle_request_def daily_word_def Let_def body chan itext
        is_reply_def pick)
qed



text \<open>
  The range of the stored index, for a channel whose key names no inherited member: after
  a call of \<open>pickNextWord\<close> (the catalog not empty) the store has an entry for the channel
  whose index is below the length of the catalog, whether or not the write succeeded; and
  when the call returned the last entry of the catalog, the stored index is 0.
\<close>

lemma cursor_in_range_own_keys:
  assumes "C \<notin> set object_members" and ne: "WORDS \<noteq> []"
  shows "\<exists>p. PROGRESS (snd (pickNextWord WORDS e C s)) C = Some p
       \<and> index p < length WORDS
       \<and> (\<forall>w. fst (pickNextWord WORDS e C s) = Inr (Some (length WORDS - 1), w) \<longrightarrow> index p = 0)"
proof -
  let ?i = "cursor (PROGRESS s) C"
  let ?p = "\<lparr>index = (?i + 1) mod length WORDS, last_sent = Some (now e)\<rparr>"
  have st: "PROGRESS (snd (pickNextWord WORDS e C s)) C = Some ?p"
    by (simp add: pickNextWord_store [OF assms(1)])
  have rng: "index ?p < length WORDS" using ne by simp
  have wrap: "index ?p = 0"
    if "fst (pickNextWord WORDS e C s) = Inr (Some (length WORDS - 1), w)" for w
  proof -
    have ok: "write_ok e"
      using that pickNextWord_throws [of e WORDS C s] by (cases "write_ok e") auto
    have "?i mod length WORDS = length WORDS - 1"
      using that pickNextWord_returns [OF assms(1) ok, of WORDS s] by simp
    then have "Suc ?i mod length WORDS = 0" using ne by (simp add: mod_Suc)
    then show ?thesis by simp
  qed
  show ?thesis using st rng wrap by blast
qed

text \<open>
  C10, at the input where the code departs from it. With the built-in catalog and no
  progress file, a call of \<open>pickNextWord\<close> for the channel \<^verbatim>\<open>toString\<close> returns an index that
  is \<^verbatim>\<open>NaN\<close> and leaves the store without an entry for the channel: lines 78 and 79 assign
  \<^verbatim>\<open>NaN\<close> and the time to the inherited function, so no index in the range of the catalog
  is stored for this channel.
\<close>

theorem inherited_key_no_entry:
  "fst (pickNextWord default_WORDS noon (str ''toString'') fresh) = Inr (None, None)
   \<and> PROGRESS (snd (pickNextWord default_WORDS noon (str ''toString'') fresh)) (str ''toString'')
     = None"
proof -
  have none: "PROGRESS fresh (str ''toString'') = None" by (simp add: fresh_def)
  show ?thesis
    using pickNextWord_member [OF none toString_is_member, of default_WORDS noon] none
    by (simp add: saveProgress_def noon_def)
qed

section \<open>Reading the request\<close>

lemma is_reply_iff:
  "is_reply t \<longleftrightarrow> t \<notin> {[], str ''daily word'', str ''start'', str ''help''}"
  by (auto simp: is_reply_def)

lemma empty_body_channel: "channelId_of (JObj []) = JStr (str ''global'')"
  by (simp add: channelId_of_def address_segment_def or_js_def)

lemma empty_body_text: "lower [] = [] \<Longrightarrow> incomingText lower (JObj []) = Inr []"
  by (simp add: incomingText_def text_of_def or_js_def trim_def)

text \<open>The text of a request is read trimmed and in lower case.\<close>

lemma incomingText_text_member:
  "r \<noteq> [] \<Longrightarrow> incomingText lower (JObj [(str ''text'', JStr r)]) = Inr (lower (trim r))"
  by (simp add: incomingText_def text_of_def or_js_def)

lemma text_member_channel:
  "channelId_of (JObj [(str ''text'', v)]) = JStr (str ''global'')"
  by (simp add: channelId_of_def address_segment_def or_js_def str_def)

text \<open>
  The handler uses \<open>lower\<close> at one string only, the trimmed text of the request. Two
  functions that agree there give the same response and the same state; so the evaluation of
  a request whose text is ASCII with \<open>lower_ascii\<close> is its evaluation with
  \<^verbatim>\<open>toLowerCase\<close>.
\<close>

lemma handler_lower_cong:
  assumes "\<And>r. to_string (text_of (or_js b (JObj []))) = Inr r \<Longrightarrow> lower (trim r) = lower' (trim r)"
  shows "handler lower WORDS e b s = handler lower' WORDS e b s"
proof (cases "to_string (text_of (or_js b (JObj [])))")
  case (Inl err)
  then show ?thesis by (simp add: handler_def handle_request_def incomingText_def Let_def)
next
  case (Inr r)
  then have "lower (trim r) = lower' (trim r)" by (rule assms)
  then show ?thesis using Inr by (simp add: handler_def handle_request_def incomingText_def Let_def)
qed

lemma serve_lower_cong:
  assumes "\<And>e b r. (e, b) \<in> set rs \<Longrightarrow> to_string (text_of (or_js b (JObj []))) = Inr r
             \<Longrightarrow> lower (trim r) = lower' (trim r)"
  shows "serve lower WORDS rs s = serve lower' WORDS rs s"
  using assms
proof (induction rs arbitrary: s)
  case Nil
  then show ?case by simp
next
  case (Cons x rs)
  obtain e b where x: "x = (e, b)" by (cases x)
  have h: "handler lower WORDS e b s = handler lower' WORDS e b s"
  proof (rule handler_lower_cong)
    fix r assume "to_string (text_of (or_js b (JObj []))) = Inr r"
    then show "lower (trim r) = lower' (trim r)" using Cons.prems [of e b r] by (simp add: x)
  qed
  have "serve lower WORDS rs s1 = serve lower' WORDS rs s1" for s1
  proof (rule Cons.IH)
    fix e' b' r
    assume "(e', b') \<in> set rs" and "to_string (text_of (or_js b' (JObj []))) = Inr r"
    then show "lower (trim r) = lower' (trim r)" using Cons.prems [of e' b' r] by simp
  qed
  then show ?case by (simp add: x h)
qed

text \<open>
  C8. The channel id is the first of four probes that yields a value, in this order: the
  \<^verbatim>\<open>id\<close> of the \<^verbatim>\<open>channel\<close> object, the top-level \<^verbatim>\<open>channelId\<close>, the segment of
  \<^verbatim>\<open>address\<close> before its first slash when \<^verbatim>\<open>address\<close> is a string (the probe yields
  nothing when it is not), and the \<^verbatim>\<open>channelId\<close> of the \<^verbatim>\<open>metadata\<close> object; it is the
  sentinel \<^verbatim>\<open>global\<close> when no probe yields a value.
\<close>

theorem channelId_probe_order:
  "channelId_of body =
     first_yielding
       [get (get body (str ''channel'')) (str ''id''),
        get body (str ''channelId''),
        address_segment body,
        get (get body (str ''metadata'')) (str ''channelId'')]
       (JStr (str ''global''))
   \<and> (\<forall>a. get body (str ''address'') = JStr a \<longrightarrow>
         (\<exists>seg rest. address_segment body = JStr seg \<and> a = seg @ rest \<and> 47 \<notin> set seg
            \<and> (rest = [] \<or> hd rest = 47)))
   \<and> ((\<forall>a. get body (str ''address'') \<noteq> JStr a) \<longrightarrow> \<not> truthy (address_segment body))"
proof (intro conjI allI impI)
  show "channelId_of body =
     first_yielding
       [get (get body (str ''channel'')) (str ''id''),
        get body (str ''channelId''),
        address_segment body,
        get (get body (str ''metadata'')) (str ''channelId'')]
       (JStr (str ''global''))"
    by (simp add: channelId_of_def first_yielding_def or_js_def)
next
  fix a assume a: "get body (str ''address'') = JStr a"
  let ?seg = "takeWhile (\<lambda>c. c \<noteq> 47) a" and ?rest = "dropWhile (\<lambda>c. c \<noteq> 47) a"
  have 1: "address_segment body = JStr ?seg" using a by (simp add: address_segment_def)
  have 2: "a = ?seg @ ?rest" by simp
  have 3: "47 \<notin> set ?seg" by (auto dest: set_takeWhileD)
  have 4: "?rest = [] \<or> hd ?rest = 47" using hd_dropWhile [of "\<lambda>c. c \<noteq> 47" a] by auto
  from 1 2 3 4
  show "\<exists>seg rest. address_segment body = JStr seg \<and> a = seg @ rest \<and> 47 \<notin> set seg
            \<and> (rest = [] \<or> hd rest = 47)"
    by blast
next
  assume "\<forall>a. get body (str ''address'') \<noteq> JStr a"
  then show "\<not> truthy (address_segment body)"
    by (cases "get body (str ''address'')") (simp_all add: address_segment_def)
qed

theorem channelId_probe_order_witness:
  "channelId_of (JObj [(str ''channel'', JObj [(str ''id'', JStr [])]),
                       (str ''address'', JStr (str ''room42/thread7'')),
                       (str ''metadata'', JObj [(str ''channelId'', JStr (str ''m1''))])])
   = JStr (str ''room42'')
   \<and> address_segment (JObj [(str ''channel'', JObj [(str ''id'', JStr [])]),
                       (str ''address'', JStr (str ''room42/thread7'')),
                       (str ''metadata'', JObj [(str ''channelId'', JStr (str ''m1''))])])
     = JStr (str ''room42'')"
  using channelId_probe_order
    [of "JObj [(str ''channel'', JObj [(str ''id'', JStr [])]),
               (str ''address'', JStr (str ''room42/thread7'')),
               (str ''metadata'', JObj [(str ''channelId'', JStr (str ''m1''))])]"]
  by (simp add: first_yielding_def address_segment_def str_def)

text \<open>
  C4. Let \<open>r\<close> be the text extracted from the request. When \<open>r\<close>, trimmed and in lower
  case, is empty or one of \<^verbatim>\<open>daily word\<close>, \<^verbatim>\<open>start\<close>, \<^verbatim>\<open>help\<close>, the handler takes the
  word-of-the-day branch: it calls \<open>pickNextWord\<close> for the channel, the state it leaves is
  the state of that call, and its answer is the word the call returned (status 500 when the
  call threw or returned no word). On every other text it takes the acknowledgement branch:
  it leaves the state as it was and answers with the reply text computed from the last
  index, with no buttons. Either branch answers 500 and keeps the state when the channel id
  cannot be made a key.
\<close>

theorem trigger_routing:
  assumes "to_string (text_of (or_js b (JObj []))) = Inr r"
  shows "(lower (trim r) \<in> {[], str ''daily word'', str ''start'', str ''help''} \<longrightarrow>
            handler lower WORDS e b s =
              (case to_string (channelId_of (or_js b (JObj []))) of
                 Inl err \<Rightarrow> (Json500 (str ''Agent internal error''), s)
               | Inr key \<Rightarrow>
                   (case pickNextWord WORDS e key s of
                      (Inl err, s1) \<Rightarrow> (Json500 (str ''Agent internal error''), s1)
                    | (Inr (idx, None), s1) \<Rightarrow> (Json500 (str ''Agent internal error''), s1)
                    | (Inr (idx, Some wordObj), s1) \<Rightarrow>
                        (Json200 (buildResponsePayload (or_js b (JObj [])) (composed wordObj) True),
                         s1))))
       \<and> (lower (trim r) \<notin> {[], str ''daily word'', str ''start'', str ''help''} \<longrightarrow>
            handler lower WORDS e b s =
              (case to_string (channelId_of (or_js b (JObj []))) of
                 Inl err \<Rightarrow> (Json500 (str ''Agent internal error''), s)
               | Inr key \<Rightarrow>
                   (Json200 (buildResponsePayload (or_js b (JObj []))
                      (replyText_of WORDS (lastIndex_of WORDS (PROGRESS s) key) (lower (trim r)))
                      False),
                    s)))"
  using assms
  by (simp add: handler_def handle_request_def incomingText_def daily_word_def acknowledge_def
      Let_def is_reply_iff split: sum.splits prod.splits option.splits)

theorem trigger_routing_witness:
  "fst (handler lower_ascii default_WORDS noon
          (JObj [(str ''text'', JStr (str ''  Daily WORD ''))]) fresh)
   = Json200 (buildResponsePayload (JObj [(str ''text'', JStr (str ''  Daily WORD ''))])
       (composed (default_WORDS ! 0)) True)
   \<and> map_option index
       (PROGRESS (snd (handler lower_ascii default_WORDS noon
          (JObj [(str ''text'', JStr (str ''  Daily WORD ''))]) fresh)) (str ''global''))
     = Some 1
   \<and> handler lower_ascii default_WORDS noon (JObj [(str ''text'', JStr (str ''Bonjour''))]) fresh
     = (Json200 (buildResponsePayload (JObj [(str ''text'', JStr (str ''Bonjour''))])
          (tip_text (str ''example'')) False), fresh)"
proof -
  let ?b1 = "JObj [(str ''text'', JStr (str ''  Daily WORD ''))]"
  let ?b2 = "JObj [(str ''text'', JStr (str ''Bonjour''))]"
  have o1: "or_js ?b1 (JObj []) = ?b1" and o2: "or_js ?b2 (JObj []) = ?b2"
    by (simp_all add: or_js_def)
  have r1: "to_string (text_of (or_js ?b1 (JObj []))) = Inr (str ''  Daily WORD '')"
    by (simp add: o1 text_of_def or_js_def str_def)
  have r2: "to_string (text_of (or_js ?b2 (JObj []))) = Inr (str ''Bonjour'')"
    by (simp add: o2 text_of_def or_js_def str_def)
  have l1: "lower_ascii (trim (str ''  Daily WORD '')) = str ''daily word''"
    by (simp add: lower_ascii_def trim_def is_space_def str_def)
  have l2: "lower_ascii (trim (str ''Bonjour'')) = str ''bonjour''"
    by (simp add: lower_ascii_def trim_def is_space_def str_def)
  have m2: "str ''bonjour'' \<notin> {[], str ''daily word'', str ''start'', str ''help''}"
    by (simp add: str_def)
  have len: "length default_WORDS = 6" by (simp add: default_WORDS_def)
  have pick: "pickNextWord default_WORDS noon (str ''global'') fresh
      = (Inr (Some 0, Some (default_WORDS ! 0)),
         fresh\<lparr>PROGRESS := [str ''global'' \<mapsto> \<lparr>index = 1, last_sent = Some (now noon)\<rparr>],
               progress_file := Some [str ''global'' \<mapsto> \<lparr>index = 1, last_sent = Some (now noon)\<rparr>],
               writes := 1\<rparr>)"
    using global_is_no_member
    by (simp add: pickNextWord_def saveProgress_def Let_def fresh_def noon_def len)
  have first: "handler lower_ascii default_WORDS noon ?b1 fresh
      = (Json200 (buildResponsePayload ?b1 (composed (default_WORDS ! 0)) True),
         fresh\<lparr>PROGRESS := [str ''global'' \<mapsto> \<lparr>index = 1, last_sent = Some (now noon)\<rparr>],
               progress_file := Some [str ''global'' \<mapsto> \<lparr>index = 1, last_sent = Some (now noon)\<rparr>],
               writes := 1\<rparr>)"
    using trigger_routing [OF r1, of lower_ascii default_WORDS noon fresh]
    by (simp add: l1 o1 text_member_channel pick)
  have second: "handler lower_ascii default_WORDS noon ?b2 fresh
      = (Json200 (buildResponsePayload ?b2 (tip_text (str ''example'')) False), fresh)"
    using trigger_routing [OF r2, of lower_ascii default_WORDS noon fresh] m2
    by (simp add: l2 o2 text_member_channel lastIndex_of_def replyText_of_def fresh_def)
  show ?thesis by (simp add: first second)
qed

section \<open>The acknowledgement\<close>

lemma starts_with_iff: "starts_with s w \<longleftrightarrow> (\<exists>v. s = w @ v)"
  by (induction s w rule: starts_with.induct) auto

lemma str_includes_iff: "str_includes s w \<longleftrightarrow> (\<exists>u v. s = u @ w @ v)"
proof (induction s)
  case Nil
  then show ?case by auto
next
  case (Cons d s)
  show ?case
  proof
    assume "str_includes (d # s) w"
    then consider "starts_with (d # s) w" | "str_includes s w" by auto
    then show "\<exists>u v. d # s = u @ w @ v"
    proof cases
      case 1
      then obtain v where "d # s = w @ v" using starts_with_iff by blast
      then have "d # s = [] @ w @ v" by simp
      then show ?thesis by blast
    next
      case 2
      then obtain u v where "s = u @ w @ v" using Cons.IH by blast
      then have "d # s = (d # u) @ w @ v" by simp
      then show ?thesis by blast
    qed
  next
    assume "\<exists>u v. d # s = u @ w @ v"
    then obtain u v where uv: "d # s = u @ w @ v" by blast
    show "str_includes (d # s) w"
    proof (cases u)
      case Nil
      then have "starts_with (d # s) w" using uv starts_with_iff by auto
      then show ?thesis by simp
    next
      case (Cons a u')
      then have "s = u' @ w @ v" using uv by simp
      then have "str_includes s w" using Cons.IH by blast
      then show ?thesis by simp
    qed
  qed
qed

lemma praise_not_tip: "praise_text w \<noteq> tip_text x"
  by (simp add: praise_text_def tip_text_def str_def)

text \<open>
  With a stored index other than 0, the word the acknowledgement looks at is the one before
  the stored index.
\<close>

lemma lastIndex_previous:
  assumes "P key = Some p" and "index p \<noteq> 0"
  shows "lastIndex_of WORDS P key = Some ((index p - 1) mod length WORDS)"
proof -
  have "index p + length WORDS - 1 = (index p - 1) + length WORDS" using assms(2) by simp
  then have "(index p + length WORDS - 1) mod length WORDS = (index p - 1) mod length WORDS"
    by (simp only: mod_add_self2)
  then show ?thesis using assms by (simp add: lastIndex_of_def)
qed

text \<open>With a stored index of 0 the acknowledgement has no word, entry or no entry.\<close>

lemma acknowledge_cursor_zero:
  "to_string channelId = Inr key \<Longrightarrow> PROGRESS s key = Some p \<Longrightarrow> index p = 0 \<Longrightarrow>
   acknowledge WORDS body channelId t s
     = (Inr (buildResponsePayload body (tip_text (str ''example'')) False), s)"
  by (simp add: acknowledge_def lastIndex_of_def replyText_of_def)

text \<open>
  C5. A request that is routed to the acknowledgement leaves the state as it was: the store
  (every channel's index and \<open>last_sent\<close>), the file and the number of writes.
\<close>

theorem acknowledgement_keeps_state:
  assumes "incomingText lower (or_js b (JObj [])) = Inr t" and "is_reply t"
  shows "snd (handler lower WORDS e b s) = s"
  using assms
  by (simp add: handler_def handle_request_def acknowledge_def Let_def split: sum.splits)

theorem acknowledgement_keeps_state_witness:
  "snd (handler lower_ascii default_WORDS noon
          (JObj [(str ''text'', JStr (str ''Merci beaucoup''))]) fresh)
   = fresh"
proof -
  let ?b = "JObj [(str ''text'', JStr (str ''Merci beaucoup''))]"
  have o: "or_js ?b (JObj []) = ?b" by (simp add: or_js_def)
  have t: "incomingText lower_ascii (or_js ?b (JObj [])) = Inr (str ''merci beaucoup'')"
    by (simp add: o incomingText_def text_of_def or_js_def trim_def lower_ascii_def
        is_space_def str_def)
  have r: "is_reply (str ''merci beaucoup'')" by (simp add: is_reply_def str_def)
  show ?thesis by (rule acknowledgement_keeps_state [OF t r])
qed

text \<open>Requests with an empty body, one after the other: the words of the day for \<^verbatim>\<open>global\<close>.\<close>

lemma handler_empty_body:
  assumes "write_ok e" and "lower [] = []"
  shows "handler lower WORDS e (JObj []) s =
     (Json200 (buildResponsePayload (JObj [])
        (composed (WORDS ! (cursor (PROGRESS s) (str ''global'') mod length WORDS))) True),
      snd (pickNextWord WORDS e (str ''global'') s))"
proof -
  obtain r s1 where step: "pickNextWord WORDS e (str ''global'') s = (r, s1)"
    by (cases "pickNextWord WORDS e (str ''global'') s")
  have r: "r = Inr (Some (cursor (PROGRESS s) (str ''global'') mod length WORDS),
                    Some (WORDS ! (cursor (PROGRESS s) (str ''global'') mod length WORDS)))"
    using pickNextWord_returns [OF global_is_no_member assms(1), of WORDS s] step by simp
  have body: "or_js (JObj []) (JObj []) = JObj []" by (simp add: or_js_def)
  show ?thesis
    by (simp add: handler_def handle_request_def daily_word_def Let_def body empty_body_channel
        empty_body_text [of lower, OF assms(2)] is_reply_def step r)
qed

lemma serve_empty_bodies:
  assumes "write_ok e" and "lower [] = []"
  shows "fst (serve lower WORDS (replicate n (e, JObj [])) s) =
           map (\<lambda>k. Json200 (buildResponsePayload (JObj [])
                  (composed (WORDS ! ((cursor (PROGRESS s) (str ''global'') + k) mod length WORDS)))
                  True)) [0..<n]
       \<and> (0 < n \<longrightarrow>
            (\<exists>p. PROGRESS (snd (serve lower WORDS (replicate n (e, JObj [])) s)) (str ''global'')
                   = Some p
                \<and> index p = (cursor (PROGRESS s) (str ''global'') + n) mod length WORDS))"
proof (induction n arbitrary: s)
  case 0
  then show ?case by simp
next
  case (Suc n)
  let ?s1 = "snd (pickNextWord WORDS e (str ''global'') s)"
  have c1: "cursor (PROGRESS ?s1) (str ''global'')
            = (cursor (PROGRESS s) (str ''global'') + 1) mod length WORDS"
    by (rule cursor_after_pick [OF global_is_no_member])
  have e1: "PROGRESS ?s1 (str ''global'')
            = Some \<lparr>index = (cursor (PROGRESS s) (str ''global'') + 1) mod length WORDS,
                    last_sent = Some (now e)\<rparr>"
    by (simp add: pickNextWord_store [OF global_is_no_member])
  have up: "[0..<Suc n] = 0 # map Suc [0..<n]"
    by (simp add: upt_conv_Cons map_Suc_upt del: upt_Suc)
  show ?case
  proof (cases "n = 0")
    case True
    then show ?thesis by (simp add: handler_empty_body [where lower = lower and e = e, OF assms] e1)
  next
    case False
    then show ?thesis
      using Suc.IH [of ?s1]
      by (simp add: handler_empty_body [where lower = lower and e = e, OF assms] split_beta c1 up comp_def mod_add_left_eq
          del: upt_Suc)
  qed
qed

lemma serve_append:
  "serve lower WORDS (xs @ ys) s =
     (fst (serve lower WORDS xs s) @ fst (serve lower WORDS ys (snd (serve lower WORDS xs s))),
      snd (serve lower WORDS ys (snd (serve lower WORDS xs s))))"
  by (induction xs arbitrary: s) (auto simp: split_beta)

text \<open>
  C2, at the input where the code departs from it. The process starts with no progress file
  and the built-in catalog; six requests with an empty body are served the six words, the
  sixth being \<^verbatim>\<open>chat\<close>, which takes the stored index of \<^verbatim>\<open>global\<close> back to 0. The reply
  \<^verbatim>\<open>j'aime mon chat\<close> is then answered with the tip and its generic \<^verbatim>\<open>example\<close>: the
  condition \<^verbatim>\<open>PROGRESS[channelId]?.index\<close> is false for the index 0, so the handler takes
  no last word although six have been served.
\<close>

theorem wrapped_cursor_reply:
  "fst (serve lower_ascii default_WORDS
          (replicate 6 (noon, JObj [])
           @ [(noon, JObj [(str ''text'', JStr (str ''j'aime mon chat''))])]) fresh)
   = map (\<lambda>i. Json200 (buildResponsePayload (JObj []) (composed (default_WORDS ! i)) True)) [0..<6]
     @ [Json200 (buildResponsePayload (JObj [(str ''text'', JStr (str ''j'aime mon chat''))])
          (tip_text (str ''example'')) False)]
   \<and> word (default_WORDS ! 5) = str ''chat''"
proof -
  let ?b = "JObj [(str ''text'', JStr (str ''j'aime mon chat''))]"
  let ?s6 = "snd (serve lower_ascii default_WORDS (replicate 6 (noon, JObj [])) fresh)"
  have len: "length default_WORDS = 6" by (simp add: default_WORDS_def)
  have ok: "write_ok noon" by (simp add: noon_def)
  have nil: "lower_ascii [] = []" by (simp add: lower_ascii_def)
  have c0: "cursor (PROGRESS fresh) (str ''global'') = 0" by (simp add: cursor_def fresh_def)
  note six = serve_empty_bodies [where lower = lower_ascii and e = noon and WORDS = default_WORDS
      and n = 6 and s = fresh, OF ok nil]
  from six have first:
    "fst (serve lower_ascii default_WORDS (replicate 6 (noon, JObj [])) fresh)
     = map (\<lambda>i. Json200 (buildResponsePayload (JObj []) (composed (default_WORDS ! i)) True)) [0..<6]"
    by (simp add: c0 len)
  from six obtain p where p: "PROGRESS ?s6 (str ''global'') = Some p" and p0: "index p = 0"
    by (auto simp: c0 len)
  have body: "or_js ?b (JObj []) = ?b" by (simp add: or_js_def)
  have itext: "incomingText lower_ascii ?b = Inr (str ''j'aime mon chat'')"
    by (simp add: incomingText_def text_of_def or_js_def trim_def lower_ascii_def
        is_space_def str_def)
  have reply: "is_reply (str ''j'aime mon chat'')" by (simp add: is_reply_def str_def)
  have seventh: "handler lower_ascii default_WORDS noon ?b ?s6
      = (Json200 (buildResponsePayload ?b (tip_text (str ''example'')) False), ?s6)"
    using acknowledge_cursor_zero [of "JStr (str ''global'')" "str ''global''" ?s6 p default_WORDS ?b
        "str ''j'aime mon chat''"] p p0
    by (simp add: handler_def handle_request_def Let_def body text_member_channel itext reply)
  have chat: "word (default_WORDS ! 5) = str ''chat''" by (simp add: default_WORDS_def)
  show ?thesis
    by (simp only: serve_append first fst_conv snd_conv serve.simps seventh prod.case chat
        append_Nil2 simp_thms)
qed

text \<open>
  What the acknowledgement answers when the handler has a last word. With \<open>r\<close> the text of
  the request and \<open>i\<close> the last index, the reply text is the congratulation naming the word
  when the word is not empty and occurs, spelled as in the catalog, in \<open>r\<close> trimmed and in
  lower case; it is the tip otherwise. Only the reply is put in lower case: for a word that
  lower-casing leaves as it is, the test is whether the trimmed reply contains the word when
  letter case is ignored.
\<close>

lemma acknowledgement_text:
  assumes "to_string (text_of (or_js b (JObj []))) = Inr r"
    and "is_reply (lower (trim r))"
    and "to_string (channelId_of (or_js b (JObj []))) = Inr key"
    and "lastIndex_of WORDS (PROGRESS s) key = Some i"
  shows "fst (handler lower WORDS e b s) =
           Json200 (buildResponsePayload (or_js b (JObj []))
             (if word (WORDS ! i) \<noteq> [] \<and> (\<exists>u v. lower (trim r) = u @ word (WORDS ! i) @ v)
              then praise_text (word (WORDS ! i))
              else tip_text (if word (WORDS ! i) \<noteq> [] then example (WORDS ! i) else str ''example''))
             False)
       \<and> (lower (word (WORDS ! i)) = word (WORDS ! i) \<longrightarrow>
            (\<exists>u v. lower (trim r) = u @ word (WORDS ! i) @ v)
            = contains_ignoring_case lower (trim r) (word (WORDS ! i)))"
  using assms
  by (simp add: handler_def handle_request_def incomingText_def acknowledge_def replyText_of_def
      Let_def str_includes_iff contains_ignoring_case_def)

text \<open>
  C3, at the input where the code departs from it. The catalog \<open>paris_WORDS\<close>, as a
  \<^verbatim>\<open>french_words.json\<close> may give it, has the word \<^verbatim>\<open>Paris\<close> first. The first request is
  served \<^verbatim>\<open>Paris\<close>; the reply \<^verbatim>\<open>J'aime Paris\<close> contains that word, whatever the letter case,
  and is answered with the tip, not with the congratulation: line 126 puts the reply in lower
  case and line 134 looks in it for the word as the catalog spells it.
\<close>

theorem capital_word_reply:
  "contains_ignoring_case lower_ascii (trim (str ''J'aime Paris'')) (word (paris_WORDS ! 0))
   \<and> fst (serve lower_ascii paris_WORDS
        [(noon, JObj []), (noon, JObj [(str ''text'', JStr (str ''J'aime Paris''))])] fresh)
     = [Json200 (buildResponsePayload (JObj []) (composed (paris_WORDS ! 0)) True),
        Json200 (buildResponsePayload (JObj [(str ''text'', JStr (str ''J'aime Paris''))])
          (tip_text (example (paris_WORDS ! 0))) False)]
   \<and> tip_text (example (paris_WORDS ! 0)) \<noteq> praise_text (word (paris_WORDS ! 0))"
proof (intro conjI)
  let ?b = "JObj [(str ''text'', JStr (str ''J'aime Paris''))]"
  let ?s1 = "snd (pickNextWord paris_WORDS noon (str ''global'') fresh)"
  have low: "lower_ascii (trim (str ''J'aime Paris'')) = str ''j'aime paris''"
    by (simp add: trim_def lower_ascii_def is_space_def str_def)
  have w: "word (paris_WORDS ! 0) = str ''Paris''" by (simp add: paris_WORDS_def)
  have loww: "lower_ascii (str ''Paris'') = str ''paris''" by (simp add: lower_ascii_def str_def)
  have inc: "str_includes (str ''j'aime paris'') (str ''paris'')" by (simp add: str_def)
  show "contains_ignoring_case lower_ascii (trim (str ''J'aime Paris'')) (word (paris_WORDS ! 0))"
    by (simp only: contains_ignoring_case_def low w loww inc)
  have len: "length paris_WORDS = 2" by (simp add: paris_WORDS_def)
  have ok: "write_ok noon" by (simp add: noon_def)
  have nil: "lower_ascii [] = []" by (simp add: lower_ascii_def)
  have c0: "cursor (PROGRESS fresh) (str ''global'') = 0" by (simp add: cursor_def fresh_def)
  have first: "handler lower_ascii paris_WORDS noon (JObj []) fresh
      = (Json200 (buildResponsePayload (JObj []) (composed (paris_WORDS ! 0)) True), ?s1)"
    using handler_empty_body [where lower = lower_ascii and e = noon and WORDS = paris_WORDS
        and s = fresh, OF ok nil] by (simp add: c0 len)
  have e1: "PROGRESS ?s1 (str ''global'') = Some \<lparr>index = 1, last_sent = Some (now noon)\<rparr>"
    by (simp add: pickNextWord_store [OF global_is_no_member] c0 len)
  have h1: "to_string (text_of (or_js ?b (JObj []))) = Inr (str ''J'aime Paris'')"
    by (simp add: text_of_def or_js_def str_def)
  have h2: "is_reply (lower_ascii (trim (str ''J'aime Paris'')))"
    by (simp only: low) (simp add: is_reply_def str_def)
  have o: "or_js ?b (JObj []) = ?b" by (simp add: or_js_def)
  have h3: "to_string (channelId_of (or_js ?b (JObj []))) = Inr (str ''global'')"
    by (simp add: o text_member_channel)
  have h4: "lastIndex_of paris_WORDS (PROGRESS ?s1) (str ''global'') = Some 0"
    by (simp add: lastIndex_of_def e1 len)
  have "\<not> str_includes (str ''j'aime paris'') (str ''Paris'')" by (simp add: str_def)
  then have nex: "\<not> (\<exists>u v. str ''j'aime paris'' = u @ str ''Paris'' @ v)"
    by (simp add: str_includes_iff)
  have second: "fst (handler lower_ascii paris_WORDS noon ?b ?s1)
      = Json200 (buildResponsePayload ?b (tip_text (example (paris_WORDS ! 0))) False)"
    using acknowledgement_text [where lower = lower_ascii and b = ?b
        and r = "str ''J'aime Paris''" and key = "str ''global''" and WORDS = paris_WORDS
        and s = ?s1 and i = 0 and e = noon, OF h1 h2 h3 h4] nex
    by (simp add: low w o) (simp add: str_def)
  show "fst (serve lower_ascii paris_WORDS [(noon, JObj []), (noon, ?b)] fresh)
     = [Json200 (buildResponsePayload (JObj []) (composed (paris_WORDS ! 0)) True),
        Json200 (buildResponsePayload ?b (tip_text (example (paris_WORDS ! 0))) False)]"
    using second by (simp add: first split_beta)
  show "tip_text (example (paris_WORDS ! 0)) \<noteq> praise_text (word (paris_WORDS ! 0))"
    using praise_not_tip [of "word (paris_WORDS ! 0)" "example (paris_WORDS ! 0)"] by simp
qed

section \<open>A failing write\<close>

text \<open>
  C7. When the write of \<open>saveProgress\<close> fails in a word-of-the-day request, the handler
  answers with status 500 and the body \<^verbatim>\<open>{ error: "Agent internal error" }\<close>, not with a
  message; and that is the response to every failure, whatever was thrown.
\<close>

theorem write_failure_response:
  assumes "incomingText lower (or_js b (JObj [])) = Inr t" and "\<not> is_reply t"
    and "\<not> write_ok e"
  shows "fst (handler lower WORDS e b s) = Json500 (str ''Agent internal error'')
       \<and> ((\<forall>m. fst (handler lower WORDS e' b' s') \<noteq> Json200 m) \<longrightarrow>
            fst (handler lower WORDS e' b' s') = Json500 (str ''Agent internal error''))"
proof
  show "fst (handler lower WORDS e b s) = Json500 (str ''Agent internal error'')"
    using assms
    by (simp add: handler_def handle_request_def daily_word_def pickNextWord_def saveProgress_def
        Let_def split: sum.splits option.splits)
  show "(\<forall>m. fst (handler lower WORDS e' b' s') \<noteq> Json200 m) \<longrightarrow>
            fst (handler lower WORDS e' b' s') = Json500 (str ''Agent internal error'')"
    by (auto simp: handler_def split: prod.splits sum.splits)
qed

theorem write_failure_response_witness:
  "fst (handler lower_ascii default_WORDS disk_full (JObj []) fresh)
   = Json500 (str ''Agent internal error'')"
proof -
  have o: "or_js (JObj []) (JObj []) = JObj []" by (simp add: or_js_def)
  have nil: "lower_ascii [] = []" by (simp add: lower_ascii_def)
  have h1: "incomingText lower_ascii (or_js (JObj []) (JObj [])) = Inr []"
    by (simp add: o empty_body_text [of lower_ascii, OF nil])
  have h2: "\<not> is_reply []" by (simp add: is_reply_def)
  have h3: "\<not> write_ok disk_full" by (simp add: disk_full_def)
  show ?thesis
    using write_failure_response [OF h1 h2 h3, of default_WORDS fresh] by simp
qed

end
